theory Spec2Isabelle
  imports Complex_Main
begin

section \<open>Pillow images\<close>

text \<open>
  \<^verbatim>\<open>zplconvert.py\<close> works on Pillow images. An image has a size and a pixel at every
  coordinate; \<open>getpixel im x y\<close> is the sample in column \<open>x\<close> of row \<open>y\<close>, counted from
  the top-left corner. Three modes are modelled: \<^verbatim>\<open>'1'\<close> (one bit per pixel; Pillow stores
  0 or 255, here \<open>False\<close> or \<open>True\<close>), \<^verbatim>\<open>'L'\<close> (one 8-bit sample) and \<^verbatim>\<open>'RGB'\<close>
  (three 8-bit samples), the last one being what the PPM data of a rendered PDF page
  decodes to. Samples are natural numbers; those of a real image are below 256.
\<close>

record 'p image =
  width :: nat
  height :: nat
  getpixel :: "nat \<Rightarrow> nat \<Rightarrow> 'p"

datatype pil_image =
    Mode1 "bool image"
  | ModeL "nat image"
  | ModeRGB "(nat \<times> nat \<times> nat) image"

datatype error = ValueError | ZeroDivisionError | KeyError | AttributeError

text \<open>\<^verbatim>\<open>Image.point(f, mode)\<close>: every sample goes through the lookup function.\<close>

definition point :: "('p \<Rightarrow> 'q) \<Rightarrow> 'p image \<Rightarrow> 'q image" where
  "point f im =
     \<lparr>width = width im, height = height im, getpixel = (\<lambda>x y. f (getpixel im x y))\<rparr>"

text \<open>
  \<^verbatim>\<open>Image.convert('L')\<close>. Pillow turns RGB into luma with the fixed-point ITU-R 601-2
  weights \<^verbatim>\<open>(r*19595 + g*38470 + b*7471 + 0x8000) >> 16\<close>; a bilevel image becomes 0 or
  255; an \<^verbatim>\<open>'L'\<close> image is copied.
\<close>

definition rgb2l :: "nat \<times> nat \<times> nat \<Rightarrow> nat" where
  "rgb2l c = (case c of (r, g, b) \<Rightarrow> (r * 19595 + g * 38470 + b * 7471 + 32768) div 65536)"

definition convert_L :: "pil_image \<Rightarrow> nat image" where
  "convert_L img =
     (case img of
        Mode1 im \<Rightarrow> point (\<lambda>b. if b then 255 else 0) im
      | ModeL im \<Rightarrow> im
      | ModeRGB im \<Rightarrow> point rgb2l im)"

definition row_bits :: "bool image \<Rightarrow> nat \<Rightarrow> bool list" where
  "row_bits im y = map (\<lambda>x. getpixel im x y) [0..<width im]"

text \<open>
  \<^verbatim>\<open>Image.tobytes()\<close> of a mode \<^verbatim>\<open>'1'\<close> image: every row is packed on its own, eight
  pixels to a byte, the leftmost pixel in the most significant bit, a set bit for a
  non-zero pixel; the last byte of a row is filled up with zero bits. An image with no
  pixels gives the empty byte string.
\<close>

definition bits_to_byte :: "bool list \<Rightarrow> nat" where
  "bits_to_byte bs = foldl (\<lambda>a b. 2 * a + (if b then 1 else 0)) 0 bs"

fun pack_row :: "bool list \<Rightarrow> nat list" where
  "pack_row [] = []"
| "pack_row (b # bs) =
     bits_to_byte (take 8 (b # bs @ replicate 7 False)) # pack_row (drop 7 bs)"

definition tobytes :: "bool image \<Rightarrow> nat list" where
  "tobytes im = concat (map (\<lambda>y. pack_row (row_bits im y)) [0..<height im])"


section \<open>Python text formatting\<close>

definition NL :: string where
  "NL = [CHR 0x0A]"

definition digit_char :: "nat \<Rightarrow> char" where
  "digit_char d = ''0123456789ABCDEF'' ! d"

text \<open>\<^verbatim>\<open>str(n)\<close> and the \<^verbatim>\<open>{n}\<close> field of an f-string, for an integer.\<close>

function str_nat :: "nat \<Rightarrow> string" where
  "str_nat n = (if n < 10 then [digit_char n] else str_nat (n div 10) @ [digit_char (n mod 10)])"
  by pat_completeness auto
termination
  by (relation "measure id") auto

declare str_nat.simps [simp del]

definition str_int :: "int \<Rightarrow> string" where
  "str_int i = (if i < 0 then CHR ''-'' # str_nat (nat (- i)) else str_nat (nat i))"

text \<open>\<^verbatim>\<open>f'{byte:02X}'\<close>: upper-case hexadecimal, padded with zeros to two characters.\<close>

function hex_upper :: "nat \<Rightarrow> string" where
  "hex_upper n = (if n < 16 then [digit_char n] else hex_upper (n div 16) @ [digit_char (n mod 16)])"
  by pat_completeness auto
termination
  by (relation "measure id") auto

declare hex_upper.simps [simp del]

definition format_02X :: "nat \<Rightarrow> string" where
  "format_02X byte = (let s = hex_upper byte in replicate (2 - length s) CHR ''0'' @ s)"

text \<open>\<^verbatim>\<open>sep.join(parts)\<close>.\<close>

fun join :: "string \<Rightarrow> string list \<Rightarrow> string" where
  "join sep [] = []"
| "join sep [s] = s"
| "join sep (s # t # ts) = s @ sep @ join sep (t # ts)"


section \<open>The raster encoder of \<^verbatim>\<open>ZPLPrinterApp.print_image\<close>\<close>

text \<open>
  The fields of the application object that \<^verbatim>\<open>print_image\<close> reads. The Tk variables
  are integer variables, \<^verbatim>\<open>pil_image\<close> is \<^verbatim>\<open>None\<close> until a file has been loaded.
\<close>

record app =
  image_path :: "string option"
  pil_image :: "pil_image option"
  threshold_var :: int
  pos_x_var :: int
  pos_y_var :: int
  speed_var :: int
  darkness_var :: int
  quantity_var :: int
  label_size_var :: string

definition label_sizes :: "string \<rightharpoonup> int \<times> int" where
  "label_sizes = [''4 x 6 in'' \<mapsto> (812, 1218), ''4 x 2 in'' \<mapsto> (812, 406)]"

text \<open>
  Lines 467 to 473: an image that is not yet of mode \<^verbatim>\<open>'1'\<close> is made grey and then cut
  at the threshold by \<^verbatim>\<open>lambda x: 0 if x >= threshold else 255\<close>; an image of mode
  \<^verbatim>\<open>'1'\<close> is taken as it is.
\<close>

definition to_mode1 :: "int \<Rightarrow> pil_image \<Rightarrow> bool image" where
  "to_mode1 threshold img =
     (case img of
        Mode1 im \<Rightarrow> im
      | ModeL im \<Rightarrow> point (\<lambda>x. if threshold \<le> int x then False else True) im
      | ModeRGB im \<Rightarrow>
          point (\<lambda>x. if threshold \<le> int x then False else True) (convert_L (ModeRGB im)))"

definition bytes_per_row :: "bool image \<Rightarrow> nat" where
  "bytes_per_row img = (width img + 7) div 8"

definition total_bytes :: "bool image \<Rightarrow> nat" where
  "total_bytes img = bytes_per_row img * height img"

text \<open>
  Lines 485 to 489, the loop \<^verbatim>\<open>for i in range(0, len(binary_data), bytes_per_row)\<close>, from
  the index \<open>i\<close> on. A step of zero makes \<^verbatim>\<open>range\<close> raise; \<open>print_image\<close> below checks
  that before it enters the loop.
\<close>

function hex_rows_from :: "nat list \<Rightarrow> nat \<Rightarrow> nat \<Rightarrow> string list" where
  "hex_rows_from binary_data step i =
     (if step = 0 \<or> length binary_data \<le> i then []
      else concat (map format_02X (take step (drop i binary_data)))
             # hex_rows_from binary_data step (i + step))"
  by pat_completeness auto
termination
  by (relation "measure (\<lambda>(binary_data, step, i). length binary_data - i)") auto

declare hex_rows_from.simps [simp del]

definition hex_rows :: "bool image \<Rightarrow> string list" where
  "hex_rows img = hex_rows_from (tobytes img) (bytes_per_row img) 0"

definition hex_data :: "bool image \<Rightarrow> string" where
  "hex_data img = join NL (hex_rows img)"

text \<open>Lines 498 to 505: the text of the print job.\<close>

definition zpl :: "int \<Rightarrow> int \<Rightarrow> int \<Rightarrow> int \<Rightarrow> int \<Rightarrow> int \<Rightarrow> int \<Rightarrow> bool image \<Rightarrow> string" where
  "zpl pw ll print_speed darkness quantity position_x position_y img =
     ''^XA'' @ NL
     @ ''^PW'' @ str_int pw @ NL @ ''^LL'' @ str_int ll @ NL
     @ ''^PR'' @ str_int print_speed @ '',0,0'' @ NL
     @ ''^MD'' @ str_int darkness @ NL
     @ ''^PQ'' @ str_int quantity @ NL
     @ ''^FO'' @ str_int position_x @ '','' @ str_int position_y @ NL
     @ ''^GFA,'' @ str_nat (total_bytes img) @ '','' @ str_nat (total_bytes img) @ '',''
         @ str_nat (bytes_per_row img) @ '','' @ NL @ hex_data img @ NL
     @ ''^FS'' @ NL @ ''^XZ''"

text \<open>
  \<^verbatim>\<open>print_image\<close> up to the text it writes to the spool file. The result is \<open>Inr None\<close>
  when the method returns at once (no file chosen), \<open>Inl e\<close> when an exception reaches
  the handler at the end of the method, which shows it in an error dialog and prints
  nothing, and \<open>Inr (Some text)\<close> when \<open>text\<close> is written and handed to \<^verbatim>\<open>lp\<close>.
\<close>

definition print_image :: "app \<Rightarrow> error + string option" where
  "print_image self =
     (if image_path self = None \<or> image_path self = Some [] then Inr None
      else
        case label_sizes (label_size_var self) of
          None \<Rightarrow> Inl KeyError
        | Some (pw, ll) \<Rightarrow>
            (case pil_image self of
               None \<Rightarrow> Inl AttributeError
             | Some loaded \<Rightarrow>
                 let img = to_mode1 (threshold_var self) loaded
                 in if bytes_per_row img = 0 then Inl ValueError
                    else Inr (Some (zpl pw ll (speed_var self) (darkness_var self)
                           (quantity_var self) (pos_x_var self) (pos_y_var self) img))))"


section \<open>Reading the raster back\<close>

text \<open>
  The program has no decoder. The one below is the reading of the hexadecimal text
  that the round-trip property refers to: the text is split at the line feeds, every
  line is read two characters at a time as one byte, and every byte gives eight bits,
  the most significant one first.
\<close>

definition hex_value :: "char \<Rightarrow> nat option" where
  "hex_value c =
     (let n = of_char c :: nat
      in if 48 \<le> n \<and> n \<le> 57 then Some (n - 48)
         else if 65 \<le> n \<and> n \<le> 70 then Some (n - 55)
         else None)"

fun decode_bits :: "nat \<Rightarrow> nat \<Rightarrow> bool list" where
  "decode_bits 0 v = []"
| "decode_bits (Suc n) v = decode_bits n (v div 2) @ [odd v]"

fun decode_hex_row :: "string \<Rightarrow> bool list option" where
  "decode_hex_row [] = Some []"
| "decode_hex_row [c] = None"
| "decode_hex_row (c # d # cs) =
     (case (hex_value c, hex_value d, decode_hex_row cs) of
        (Some hi, Some lo, Some bits) \<Rightarrow> Some (decode_bits 8 (16 * hi + lo) @ bits)
      | _ \<Rightarrow> None)"

fun split_on :: "char \<Rightarrow> string \<Rightarrow> string list" where
  "split_on c [] = [[]]"
| "split_on c (x # xs) =
     (if x = c then [] # split_on c xs
      else case split_on c xs of [] \<Rightarrow> [[x]] | r # rs \<Rightarrow> (x # r) # rs)"

definition decode_hex_data :: "string \<Rightarrow> bool list list option" where
  "decode_hex_data text = those (map decode_hex_row (split_on (CHR 0x0A) text))"

text \<open>
  A decimal numeral without leading zeros, with an optional minus sign, and the number
  it denotes.
\<close>

definition is_digit :: "char \<Rightarrow> bool" where
  "is_digit c = (c \<in> set ''0123456789'')"

definition is_unsigned_decimal :: "string \<Rightarrow> bool" where
  "is_unsigned_decimal s = (s = ''0'' \<or> (s \<noteq> [] \<and> hd s \<noteq> CHR ''0'' \<and> list_all is_digit s))"

definition is_decimal :: "string \<Rightarrow> bool" where
  "is_decimal s =
     (case s of
        [] \<Rightarrow> False
      | c # t \<Rightarrow> if c = CHR ''-'' then is_unsigned_decimal t \<and> t \<noteq> ''0''
                else is_unsigned_decimal s)"

definition decimal_value :: "string \<Rightarrow> nat" where
  "decimal_value s = foldl (\<lambda>a c. 10 * a + (of_char c - 48)) 0 s"

definition is_upper_hex :: "string \<Rightarrow> bool" where
  "is_upper_hex s = list_all (\<lambda>c. c \<in> set ''0123456789ABCDEF'') s"


section \<open>Binary floating point\<close>

text \<open>
  A Python \<^verbatim>\<open>float\<close> is an IEEE 754 binary64 number. It is modelled by the rational
  number it denotes; every arithmetic operation gives the exact result rounded to 53
  significant bits, to nearest and ties to even (\<open>fl\<close>). The exponent is not bounded:
  overflow and subnormal numbers, which need magnitudes beyond \<open>2 ^ 1023\<close> or below
  \<open>2 ^ - 1022\<close>, are outside the model. Comparisons are exact, also between an
  integer and a float, as in Python.
\<close>

function bit_length :: "int \<Rightarrow> int" where
  "bit_length n = (if n \<le> 0 then 0 else 1 + bit_length (n div 2))"
  by pat_completeness auto
termination
  by (relation "measure nat") auto

declare bit_length.simps [simp del]

definition pow2 :: "int \<Rightarrow> rat" where
  "pow2 e = (if 0 \<le> e then 2 ^ nat e else 1 / 2 ^ nat (- e))"

text \<open>For positive \<open>x\<close>, the exponent \<open>e\<close> with \<open>2 ^ e \<le> x < 2 ^ (e + 1)\<close>.\<close>

definition ilog2 :: "rat \<Rightarrow> int" where
  "ilog2 x =
     (let (p, q) = quotient_of x;
          d = bit_length p - bit_length q
      in if pow2 d \<le> x then d else d - 1)"

definition round_half_even :: "rat \<Rightarrow> int" where
  "round_half_even m =
     (let f = \<lfloor>m\<rfloor>; r = m - of_int f
      in if r < 1 / 2 then f
         else if 1 / 2 < r then f + 1
         else if even f then f else f + 1)"

definition fl :: "rat \<Rightarrow> rat" where
  "fl x =
     (if x = 0 then 0
      else let a = \<bar>x\<bar>; s = pow2 (ilog2 a - 52)
           in sgn x * of_int (round_half_even (a / s)) * s)"

text \<open>\<^verbatim>\<open>a / b\<close> on two integers: the quotient, correctly rounded.\<close>

definition true_div :: "int \<Rightarrow> int \<Rightarrow> error + rat" where
  "true_div a b = (if b = 0 then Inl ZeroDivisionError else Inr (fl (of_int a / of_int b)))"

text \<open>An integer operand of a float operation is converted to a float first.\<close>

definition float_of_int :: "int \<Rightarrow> rat" where
  "float_of_int n = fl (of_int n)"

text \<open>\<^verbatim>\<open>int(x)\<close> on a float: truncation towards zero.\<close>

definition int_of_float :: "rat \<Rightarrow> int" where
  "int_of_float x = (if 0 \<le> x then \<lfloor>x\<rfloor> else \<lceil>x\<rceil>)"

text \<open>
  \<^verbatim>\<open>max(0, x)\<close> and \<^verbatim>\<open>min(n, x)\<close> with an integer first and a float second. Python returns
  the first argument unless the second is strictly larger (smaller); the value is the
  same either way.
\<close>

definition max_int_float :: "int \<Rightarrow> rat \<Rightarrow> rat" where
  "max_int_float n x = (if of_int n < x then x else of_int n)"

definition min_int_float :: "int \<Rightarrow> rat \<Rightarrow> rat" where
  "min_int_float n x = (if x < of_int n then x else of_int n)"


section \<open>Label extraction: \<^verbatim>\<open>extract_label_from_pdf\<close>\<close>

text \<open>
  A bounding box is \<^verbatim>\<open>(left, upper, right, lower)\<close>, the right and lower edge exclusive.
\<close>

type_synonym box = "int \<times> int \<times> int \<times> int"

text \<open>
  \<^verbatim>\<open>Image.crop(box)\<close>. Pillow raises \<^verbatim>\<open>ValueError\<close> for a box whose right edge is left of
  its left edge or whose lower edge is above its upper edge. Every box this program
  passes has its edges clamped to the image, so that no pixel outside the image is
  read.
\<close>

definition crop :: "'p image \<Rightarrow> box \<Rightarrow> error + 'p image" where
  "crop im box =
     (case box of (left, upper, right, lower) \<Rightarrow>
        if right < left \<or> lower < upper then Inl ValueError
        else Inr \<lparr>width = nat (right - left), height = nat (lower - upper),
                  getpixel = (\<lambda>x y. getpixel im (nat (left + int x)) (nat (upper + int y)))\<rparr>)"

text \<open>The pixels a box holds.\<close>

definition in_box :: "box \<Rightarrow> nat \<Rightarrow> nat \<Rightarrow> bool" where
  "in_box box x y =
     (case box of (left, upper, right, lower) \<Rightarrow>
        left \<le> int x \<and> int x < right \<and> upper \<le> int y \<and> int y < lower)"

text \<open>\<^verbatim>\<open>Image.getdata()\<close>: the samples row by row.\<close>

definition getdata :: "'p image \<Rightarrow> 'p list" where
  "getdata im = concat (map (\<lambda>y. map (\<lambda>x. getpixel im x y) [0..<width im]) [0..<height im])"

text \<open>\<^verbatim>\<open>ImageOps.invert\<close> on an \<^verbatim>\<open>'L'\<close> image.\<close>

definition invert :: "nat image \<Rightarrow> nat image" where
  "invert im = point (\<lambda>v. 255 - v) im"

text \<open>
  \<^verbatim>\<open>Image.getbbox()\<close>: the smallest box that holds every non-zero sample, \<^verbatim>\<open>None\<close> when
  there is none.
\<close>

definition getbbox :: "nat image \<Rightarrow> box option" where
  "getbbox im =
     (let cols = filter (\<lambda>x. list_ex (\<lambda>y. getpixel im x y \<noteq> 0) [0..<height im]) [0..<width im];
          rows = filter (\<lambda>y. list_ex (\<lambda>x. getpixel im x y \<noteq> 0) [0..<width im]) [0..<height im]
      in if cols = [] then None
         else Some (int (hd cols), int (hd rows), int (last cols) + 1, int (last rows) + 1))"

text \<open>
  \<^verbatim>\<open>Image.rotate(90, expand=True)\<close>, which Pillow carries out as the transposition
  \<^verbatim>\<open>ROTATE_90\<close>: a quarter turn counter-clockwise, the right column of the input
  becoming the top row of the output.
\<close>

definition rotate90 :: "'p image \<Rightarrow> 'p image" where
  "rotate90 im =
     \<lparr>width = height im, height = width im,
      getpixel = (\<lambda>x y. getpixel im (width im - 1 - y) x)\<rparr>"

definition pil_width :: "pil_image \<Rightarrow> nat" where
  "pil_width img = (case img of Mode1 im \<Rightarrow> width im | ModeL im \<Rightarrow> width im | ModeRGB im \<Rightarrow> width im)"

definition pil_height :: "pil_image \<Rightarrow> nat" where
  "pil_height img = (case img of Mode1 im \<Rightarrow> height im | ModeL im \<Rightarrow> height im | ModeRGB im \<Rightarrow> height im)"

definition pil_crop :: "pil_image \<Rightarrow> box \<Rightarrow> error + pil_image" where
  "pil_crop img box =
     (case img of
        Mode1 im \<Rightarrow> map_sum id Mode1 (crop im box)
      | ModeL im \<Rightarrow> map_sum id ModeL (crop im box)
      | ModeRGB im \<Rightarrow> map_sum id ModeRGB (crop im box))"

definition pil_rotate90 :: "pil_image \<Rightarrow> pil_image" where
  "pil_rotate90 img =
     (case img of
        Mode1 im \<Rightarrow> Mode1 (rotate90 im)
      | ModeL im \<Rightarrow> ModeL (rotate90 im)
      | ModeRGB im \<Rightarrow> ModeRGB (rotate90 im))"

text \<open>
  The first page of the document: its rectangle in points, and the external rasterizer,
  which gives the page as an image at a resolution in dots per inch.
\<close>

record page =
  rect_width :: rat
  rect_height :: rat
  get_pixmap :: "nat \<Rightarrow> pil_image"

text \<open>Lines 24 and 25: the size of the page in inches, a point being 1/72 inch.\<close>

definition page_width_in :: "page \<Rightarrow> rat" where
  "page_width_in page = fl (rect_width page / 72)"

definition page_height_in :: "page \<Rightarrow> rat" where
  "page_height_in page = fl (rect_height page / 72)"

text \<open>Lines 31 to 34.\<close>

definition is_letter_size :: "rat \<Rightarrow> rat \<Rightarrow> bool" where
  "is_letter_size width_in height_in =
     ((15 / 2 < width_in \<and> width_in < 19 / 2
         \<and> 10 < height_in \<and> height_in < 12)
      \<or> (10 < width_in \<and> width_in < 12
         \<and> 15 / 2 < height_in \<and> height_in < 19 / 2))"

text \<open>Lines 56 to 60.\<close>

definition threshold_fn :: "nat \<Rightarrow> nat" where
  "threshold_fn x = (if x < 240 then 0 else 255)"

text \<open>Lines 75 to 80.\<close>

definition bbox_covers_page :: "nat \<Rightarrow> nat \<Rightarrow> box \<Rightarrow> bool" where
  "bbox_covers_page img_width img_height bbox =
     (case bbox of (x0, y0, x1, y1) \<Rightarrow>
        of_int x0 < fl (float_of_int (int img_width) * fl (5 / 100))
        \<and> of_int y0 < fl (float_of_int (int img_height) * fl (5 / 100))
        \<and> fl (float_of_int (int img_width) * fl (95 / 100)) < of_int x1
        \<and> fl (float_of_int (int img_height) * fl (95 / 100)) < of_int y1)"

text \<open>Lines 92 to 94: the box of strip \<open>i\<close>.\<close>

definition strip_box :: "nat \<Rightarrow> nat \<Rightarrow> nat \<Rightarrow> box" where
  "strip_box strip_width img_height i =
     (let strip_left = i * strip_width; strip_right = (i + 1) * strip_width
      in (int strip_left, 0, int strip_right, int img_height))"

text \<open>Line 96: the number of dark samples of a strip, a dark sample of the mask being 0.\<close>

definition dark_pixels :: "nat image \<Rightarrow> nat" where
  "dark_pixels strip = length (filter (\<lambda>p. p = 0) (getdata strip))"

text \<open>Lines 92 to 97: the body of the loop over the strips, for strip \<open>i\<close>.\<close>

definition strip_density :: "nat image \<Rightarrow> nat \<Rightarrow> nat \<Rightarrow> nat \<Rightarrow> error + rat" where
  "strip_density binary strip_width img_height i =
     (case crop binary (strip_box strip_width img_height i) of
        Inl e \<Rightarrow> Inl e
      | Inr strip \<Rightarrow> true_div (int (dark_pixels strip)) (int (strip_width * img_height)))"

text \<open>The strips, of the twenty, whose box holds the pixel in column \<open>x\<close> of row \<open>y\<close>.\<close>

definition strips_holding :: "nat \<Rightarrow> nat \<Rightarrow> nat \<Rightarrow> nat \<Rightarrow> nat list" where
  "strips_holding img_width img_height x y =
     filter (\<lambda>i. in_box (strip_box (img_width div 20) img_height i) x y) [0..<20]"

text \<open>Lines 91 to 98: the loop, over the indices still to come.\<close>

fun strip_densities :: "nat image \<Rightarrow> nat \<Rightarrow> nat \<Rightarrow> nat list \<Rightarrow> error + (nat \<times> rat) list" where
  "strip_densities binary strip_width img_height [] = Inr []"
| "strip_densities binary strip_width img_height (i # rest) =
     (case strip_density binary strip_width img_height i of
        Inl e \<Rightarrow> Inl e
      | Inr density \<Rightarrow>
          (case strip_densities binary strip_width img_height rest of
             Inl e \<Rightarrow> Inl e
           | Inr ds \<Rightarrow> Inr ((i, density) # ds)))"

text \<open>
  Lines 107 to 124, the block under \<^verbatim>\<open>if label_strips:\<close>. The result is \<open>Inr None\<close> when
  \<^verbatim>\<open>bbox\<close> stays as it was, and \<open>Inr (Some b)\<close> when \<open>b\<close> is assigned to it.
\<close>

definition bbox_from_strips :: "nat image \<Rightarrow> nat \<Rightarrow> nat \<Rightarrow> nat \<Rightarrow> nat list \<Rightarrow> error + box option" where
  "bbox_from_strips binary img_width img_height strip_width label_strips =
     (if label_strips = [] then Inr None
      else
        let left_strip = fold min label_strips (hd label_strips);
            right_strip = fold max label_strips (hd label_strips);
            margin = int strip_width;
            left = max 0 (int left_strip * int strip_width - margin);
            right = min (int img_width) ((int right_strip + 1) * int strip_width + margin)
        in case crop binary (left, 0, right, int img_height) of
             Inl e \<Rightarrow> Inl e
           | Inr cropped_region \<Rightarrow>
               (case getbbox (invert cropped_region) of
                  None \<Rightarrow> Inr None
                | Some (rx0, ry0, rx1, ry1) \<Rightarrow>
                    let top = max 0 (ry0 - margin);
                        bottom = min (int img_height) (ry1 + margin)
                    in Inr (Some (left, top, right, bottom))))"

text \<open>Lines 88 to 124, the column density analysis.\<close>

definition column_density_bbox :: "nat image \<Rightarrow> nat \<Rightarrow> nat \<Rightarrow> error + box option" where
  "column_density_bbox binary img_width img_height =
     (let strip_width = img_width div 20
      in case strip_densities binary strip_width img_height [0..<20] of
           Inl e \<Rightarrow> Inl e
         | Inr ds \<Rightarrow>
             let label_strips = map fst (filter (\<lambda>(i, d). fl (2 / 100) < d) ds)
             in bbox_from_strips binary img_width img_height strip_width label_strips)"

text \<open>Lines 74 to 130: the bounding box that the rest of the function works with.\<close>

definition final_bbox :: "nat image \<Rightarrow> nat \<Rightarrow> nat \<Rightarrow> box \<Rightarrow> error + box" where
  "final_bbox binary img_width img_height bbox =
     (if bbox_covers_page img_width img_height bbox
      then case column_density_bbox binary img_width img_height of
             Inl e \<Rightarrow> Inl e
           | Inr None \<Rightarrow> Inr bbox
           | Inr (Some refined) \<Rightarrow> Inr refined
      else Inr bbox)"

text \<open>Lines 150 to 162: the long and the short edge of the label, in inches.\<close>

definition label_size :: "rat \<Rightarrow> rat \<Rightarrow> rat \<times> rat" where
  "label_size content_width_in content_height_in =
     (let max_content_dim = max content_width_in content_height_in;
          min_content_dim = min content_width_in content_height_in
      in if 5 < max_content_dim then (6, 4)
         else if 3 < max_content_dim then (4, 2)
         else (fl (max_content_dim + fl (2 / 10)), fl (min_content_dim + fl (2 / 10))))"

text \<open>Lines 168 to 178: the crop rectangle, centred on the content.\<close>

definition crop_region :: "nat \<Rightarrow> nat \<Rightarrow> nat \<Rightarrow> box \<Rightarrow> rat \<times> rat \<Rightarrow> box" where
  "crop_region img_width img_height target_dpi bbox label =
     (case bbox of (x0, y0, x1, y1) \<Rightarrow>
      case label of (label_long_edge, label_short_edge) \<Rightarrow>
        let content_center_x = fl (of_int (x0 + x1) / 2);
            content_center_y = fl (of_int (y0 + y1) / 2);
            crop_half_width = fl (fl (label_long_edge * float_of_int (int target_dpi)) / 2);
            crop_half_height = fl (fl (label_short_edge * float_of_int (int target_dpi)) / 2);
            left = int_of_float (max_int_float 0 (fl (content_center_x - crop_half_width)));
            right = int_of_float (min_int_float (int img_width) (fl (content_center_x + crop_half_width)));
            top = int_of_float (max_int_float 0 (fl (content_center_y - crop_half_height)));
            bottom = int_of_float (min_int_float (int img_height) (fl (content_center_y + crop_half_height)))
        in (left, top, right, bottom))"

text \<open>Line 203.\<close>

definition spans_page_height :: "nat \<Rightarrow> box \<Rightarrow> bool" where
  "spans_page_height page_height bbox =
     (case bbox of (x0, y0, x1, y1) \<Rightarrow>
        fl (float_of_int (int page_height) * fl (7 / 10)) < of_int (y1 - y0))"

text \<open>Lines 213 to 227.\<close>

definition needs_rotation :: "rat \<Rightarrow> bool \<Rightarrow> bool" where
  "needs_rotation aspect_ratio spans =
     (if 1 < aspect_ratio then True
      else if spans \<and> 1 / 2 < aspect_ratio then True
      else False)"

text \<open>Lines 132 to 238: from the final bounding box to the returned image.\<close>

definition crop_and_rotate :: "pil_image \<Rightarrow> nat \<Rightarrow> box \<Rightarrow> error + pil_image" where
  "crop_and_rotate img target_dpi bbox =
     (case bbox of (x0, y0, x1, y1) \<Rightarrow>
      case true_div (x1 - x0) (int target_dpi) of
        Inl e \<Rightarrow> Inl e
      | Inr content_width_in \<Rightarrow>
      case true_div (y1 - y0) (int target_dpi) of
        Inl e \<Rightarrow> Inl e
      | Inr content_height_in \<Rightarrow>
      case pil_crop img (crop_region (pil_width img) (pil_height img) target_dpi bbox
                           (label_size content_width_in content_height_in)) of
        Inl e \<Rightarrow> Inl e
      | Inr cropped \<Rightarrow>
      case true_div (int (pil_width cropped)) (int (pil_height cropped)) of
        Inl e \<Rightarrow> Inl e
      | Inr aspect_ratio \<Rightarrow>
          if needs_rotation aspect_ratio (spans_page_height (pil_height img) bbox)
          then Inr (pil_rotate90 cropped)
          else Inr cropped)"

text \<open>
  The whole function. The messages it prints when \<^verbatim>\<open>debug\<close> is set do not change what
  it returns and are left out.
\<close>

definition extract_label_from_pdf :: "page \<Rightarrow> nat \<Rightarrow> error + pil_image" where
  "extract_label_from_pdf page target_dpi =
     (let img = get_pixmap page target_dpi
      in if \<not> is_letter_size (page_width_in page) (page_height_in page) then Inr img
         else
           let gray = convert_L img;
               binary = point threshold_fn gray
           in case getbbox (invert binary) of
                None \<Rightarrow> Inr img
              | Some bbox \<Rightarrow>
                  (case final_bbox binary (pil_width img) (pil_height img) bbox of
                     Inl e \<Rightarrow> Inl e
                   | Inr bbox' \<Rightarrow> crop_and_rotate img target_dpi bbox'))"

section \<open>Concrete inputs\<close>

text \<open>Small images and application states on which the results below are evaluated.\<close>

definition stripes_9x2 :: "bool image" where
  "stripes_9x2 = \<lparr>width = 9, height = 2, getpixel = (\<lambda>x y. even (x + y))\<rparr>"

definition blank_label :: "bool image" where
  "blank_label = \<lparr>width = 812, height = 1218, getpixel = (\<lambda>x y. False)\<rparr>"

definition default_app :: app where
  "default_app =
     \<lparr>image_path = Some ''label.png'', pil_image = Some (Mode1 stripes_9x2),
      threshold_var = 128, pos_x_var = 0, pos_y_var = 10, speed_var = 2,
      darkness_var = 25, quantity_var = 1, label_size_var = ''4 x 6 in''\<rparr>"

definition zero_height_app :: app where
  "zero_height_app =
     default_app\<lparr>pil_image := Some (Mode1 \<lparr>width = 8, height = 0, getpixel = (\<lambda>x y. True)\<rparr>)\<rparr>"

definition zero_width_app :: app where
  "zero_width_app =
     default_app\<lparr>pil_image := Some (Mode1 \<lparr>width = 0, height = 8, getpixel = (\<lambda>x y. True)\<rparr>)\<rparr>"

text \<open>A page of 4 by 6 inches, and a white letter page.\<close>

definition label_page :: page where
  "label_page =
     \<lparr>rect_width = 288, rect_height = 432,
      get_pixmap = (\<lambda>dpi. ModeL \<lparr>width = 4 * dpi, height = 6 * dpi, getpixel = (\<lambda>x y. 0)\<rparr>)\<rparr>"

definition white_letter_page :: page where
  "white_letter_page =
     \<lparr>rect_width = 612, rect_height = 792,
      get_pixmap = (\<lambda>dpi. ModeRGB \<lparr>width = 17 * dpi div 2, height = 11 * dpi,
                                  getpixel = (\<lambda>x y. (255, 255, 255))\<rparr>)\<rparr>"






section \<open>Packing and formatting\<close>

lemma bits_to_byte_snoc: "bits_to_byte (bs @ [b]) = 2 * bits_to_byte bs + (if b then 1 else 0)"
  by (simp add: bits_to_byte_def)

lemma decode_bits_double: "decode_bits (Suc n) (2 * v + (if b then 1 else 0)) = decode_bits n v @ [b]"
  by simp

lemma decode_bits_to_byte: "decode_bits (length bs) (bits_to_byte bs) = bs"
proof (induction bs rule: rev_induct)
  case Nil
  show ?case by simp
next
  case (snoc b bs)
  have "decode_bits (Suc (length bs)) (2 * bits_to_byte bs + (if b then 1 else 0))
          = decode_bits (length bs) (bits_to_byte bs) @ [b]"
    by (rule decode_bits_double)
  with snoc show ?case by (simp add: bits_to_byte_snoc)
qed

lemma bits_to_byte_less: "bits_to_byte bs < 2 ^ length bs"
proof (induction bs rule: rev_induct)
  case Nil
  show ?case by (simp add: bits_to_byte_def)
next
  case (snoc b bs)
  then show ?case by (simp add: bits_to_byte_snoc)
qed

lemma decode_bits8:
  assumes "length bs = 8"
  shows "decode_bits 8 (bits_to_byte bs) = bs"
proof -
  have "decode_bits (length bs) (bits_to_byte bs) = bs" by (rule decode_bits_to_byte)
  then show ?thesis unfolding assms .
qed

lemma bits_to_byte_less8:
  assumes "length bs = 8"
  shows "bits_to_byte bs < 256"
proof -
  have "bits_to_byte bs < 2 ^ length bs" by (rule bits_to_byte_less)
  then show ?thesis unfolding assms by simp
qed

lemma length_first_byte: "length (take 8 (b # bs @ replicate 7 False)) = 8"
  by simp

lemma length_pack_row: "length (pack_row bs) = (length bs + 7) div 8"
proof (induction bs rule: pack_row.induct)
  case 1
  show ?case by simp
next
  case (2 b bs)
  then show ?case by (cases "7 \<le> length bs") auto
qed

lemma pack_row_bytes: "v \<in> set (pack_row bs) \<Longrightarrow> v < 256"
proof (induction bs rule: pack_row.induct)
  case 1
  then show ?case by simp
next
  case (2 b bs)
  have "bits_to_byte (take 8 (b # bs @ replicate 7 False)) < 256"
    by (rule bits_to_byte_less8 [OF length_first_byte])
  with 2 show ?case by (auto simp del: take_Suc_Cons)
qed

lemma decode_pack_row:
  "concat (map (decode_bits 8) (pack_row bs))
     = bs @ replicate (8 * ((length bs + 7) div 8) - length bs) False"
proof (induction bs rule: pack_row.induct)
  case 1
  show ?case by simp
next
  case (2 b bs)
  define first where "first = take 8 (b # bs @ replicate 7 False)"
  have first: "decode_bits 8 (bits_to_byte first) = first"
    unfolding first_def by (rule decode_bits8 [OF length_first_byte])
  have unfold: "concat (map (decode_bits 8) (pack_row (b # bs)))
      = first @ concat (map (decode_bits 8) (pack_row (drop 7 bs)))"
    using first by (simp add: first_def del: decode_bits.simps take_Suc_Cons)
  show ?case
  proof (cases "7 \<le> length bs")
    case True
    have "first = b # take 7 bs" using True by (simp add: first_def)
    moreover have "8 * ((length (drop 7 bs) + 7) div 8) - length (drop 7 bs)
        = 8 * ((length (b # bs) + 7) div 8) - length (b # bs)"
      using True by (simp; arith)
    ultimately show ?thesis unfolding unfold using 2 by simp
  next
    case False
    then have short: "drop 7 bs = []" by simp
    have "first = b # bs @ replicate (7 - length bs) False" using False by (simp add: first_def)
    moreover have "8 * ((length (b # bs) + 7) div 8) - length (b # bs) = 7 - length bs"
      using False by (simp; arith)
    ultimately show ?thesis unfolding unfold using short by simp
  qed
qed

lemma upt_16: "[0..<16] = [0, 1, 2, 3, 4, 5, 6, 7, 8, 9, 10, 11, 12, 13, 14, 15 :: nat]"
  by (simp add: upt_rec)

lemma digit_char_cases:
  assumes "d < 16"
  shows "d = 0 \<or> d = 1 \<or> d = 2 \<or> d = 3 \<or> d = 4 \<or> d = 5 \<or> d = 6 \<or> d = 7
     \<or> d = 8 \<or> d = 9 \<or> d = 10 \<or> d = 11 \<or> d = 12 \<or> d = 13 \<or> d = 14 \<or> d = (15::nat)"
proof -
  have "d \<in> set [0..<16]" using assms by simp
  then show ?thesis unfolding upt_16 by simp
qed

lemma hex_value_digit_char: "d < 16 \<Longrightarrow> hex_value (digit_char d) = Some d"
  using digit_char_cases [of d] by (auto simp: hex_value_def digit_char_def)

lemma digit_char_upper_hex: "d < 16 \<Longrightarrow> digit_char d \<in> set ''0123456789ABCDEF''"
  using digit_char_cases [of d] by (auto simp: digit_char_def)

lemma digit_char_not_newline: "d < 16 \<Longrightarrow> digit_char d \<noteq> CHR 0x0A"
  using digit_char_cases [of d] by (auto simp: digit_char_def)

lemma format_02X_byte:
  assumes "byte < 256"
  shows "format_02X byte = [digit_char (byte div 16), digit_char (byte mod 16)]"
proof (cases "byte < 16")
  case True
  then show ?thesis
    by (simp add: format_02X_def hex_upper.simps [of byte] digit_char_def)
next
  case False
  with assms have "byte div 16 < 16" by simp
  with False show ?thesis
    by (simp add: format_02X_def hex_upper.simps [of byte] hex_upper.simps [of "byte div 16"])
qed

lemma decode_format_02X:
  assumes "byte < 256"
  shows "decode_hex_row (format_02X byte @ cs)
           = map_option ((@) (decode_bits 8 byte)) (decode_hex_row cs)"
proof -
  have hi: "hex_value (digit_char (byte div 16)) = Some (byte div 16)"
    using assms by (intro hex_value_digit_char) simp
  have lo: "hex_value (digit_char (byte mod 16)) = Some (byte mod 16)"
    by (intro hex_value_digit_char) simp
  show ?thesis
    by (cases "decode_hex_row cs")
       (simp_all add: format_02X_byte [OF assms] hi lo del: decode_bits.simps)
qed

lemma decode_hex_row_bytes:
  "\<forall>v \<in> set bytes. v < 256 \<Longrightarrow>
     decode_hex_row (concat (map format_02X bytes)) = Some (concat (map (decode_bits 8) bytes))"
  by (induction bytes) (simp_all add: decode_format_02X del: decode_bits.simps)

lemma length_hex_row:
  "\<forall>v \<in> set bytes. v < 256 \<Longrightarrow> length (concat (map format_02X bytes)) = 2 * length bytes"
  by (induction bytes) (simp_all add: format_02X_byte)

lemma upper_hex_row:
  "\<forall>v \<in> set bytes. v < 256 \<Longrightarrow> is_upper_hex (concat (map format_02X bytes))"
proof (induction bytes)
  case Nil
  show ?case by (simp add: is_upper_hex_def)
next
  case (Cons v bytes)
  then have v: "v < 256" by simp
  then have "v div 16 < 16" by simp
  then have "digit_char (v div 16) \<in> set ''0123456789ABCDEF''"
    and "digit_char (v mod 16) \<in> set ''0123456789ABCDEF''"
    by (simp_all only: digit_char_upper_hex mod_less_divisor zero_less_numeral)
  with Cons show ?case
    by (simp add: is_upper_hex_def format_02X_byte [OF v] del: set_simps)
       (simp add: is_upper_hex_def)
qed

lemma upper_hex_no_newline: "is_upper_hex s \<Longrightarrow> CHR 0x0A \<notin> set s"
  by (induction s) (auto simp: is_upper_hex_def)

lemma hex_rows_from_concat:
  assumes "0 < step" and "\<forall>r \<in> set rows. length r = step"
  shows "hex_rows_from (pre @ concat rows) step (length pre)
           = map (\<lambda>r. concat (map format_02X r)) rows"
  using assms(2)
proof (induction rows arbitrary: pre)
  case Nil
  show ?case by (simp add: hex_rows_from.simps [of pre])
next
  case (Cons r rows)
  then have len: "length r = step" by simp
  have "\<forall>r \<in> set rows. length r = step" using Cons.prems by simp
  then have "hex_rows_from ((pre @ r) @ concat rows) step (length (pre @ r))
          = map (\<lambda>r. concat (map format_02X r)) rows"
    by (rule Cons.IH)
  then have rest: "hex_rows_from (pre @ r @ concat rows) step (length pre + step)
          = map (\<lambda>r. concat (map format_02X r)) rows"
    by (simp add: len)
  show ?case
    using assms(1) len rest
    by (subst hex_rows_from.simps) simp
qed

lemma split_on_append:
  "c \<notin> set r \<Longrightarrow> split_on c (r @ c # rest) = r # split_on c rest"
  by (induction r) auto

lemma split_on_single: "c \<notin> set r \<Longrightarrow> split_on c r = [r]"
  by (induction r) auto

lemma split_on_join:
  "rows \<noteq> [] \<Longrightarrow> \<forall>r \<in> set rows. c \<notin> set r \<Longrightarrow> split_on c (join [c] rows) = rows"
proof (induction "[c]" rows rule: join.induct)
  case 1
  then show ?case by simp
next
  case (2 s)
  then show ?case by (simp add: split_on_single)
next
  case (3 s t ts)
  then show ?case by (simp add: split_on_append)
qed

lemma those_map_Some: "\<forall>x \<in> set xs. f x = Some (g x) \<Longrightarrow> those (map f xs) = Some (map g xs)"
  by (induction xs) simp_all

lemma length_row_bits: "length (row_bits im y) = width im"
  by (simp add: row_bits_def)

lemma length_packed_row: "length (pack_row (row_bits im y)) = bytes_per_row im"
  by (simp add: length_pack_row length_row_bits bytes_per_row_def)

lemma hex_rows_eq:
  assumes "0 < width im"
  shows "hex_rows im = map (\<lambda>y. concat (map format_02X (pack_row (row_bits im y)))) [0..<height im]"
proof -
  have step: "0 < bytes_per_row im" using assms by (simp add: bytes_per_row_def)
  have "hex_rows_from ([] @ concat (map (\<lambda>y. pack_row (row_bits im y)) [0..<height im]))
          (bytes_per_row im) (length ([] :: nat list))
        = map (\<lambda>r. concat (map format_02X r)) (map (\<lambda>y. pack_row (row_bits im y)) [0..<height im])"
    by (rule hex_rows_from_concat [OF step]) (simp add: length_packed_row)
  then show ?thesis by (simp add: hex_rows_def tobytes_def comp_def)
qed

lemma length_tobytes: "length (tobytes im) = total_bytes im"
  by (simp add: tobytes_def total_bytes_def length_concat comp_def length_packed_row sum_list_triv)

lemma length_decode_bits: "length (decode_bits n v) = n"
  by (induction n arbitrary: v) simp_all

lemma decode_bits_nth: "k < n \<Longrightarrow> decode_bits n v ! k = odd (v div 2 ^ (n - 1 - k))"
proof (induction n arbitrary: v k)
  case 0
  then show ?case by simp
next
  case (Suc n)
  show ?case
  proof (cases "k = n")
    case True
    then show ?thesis by (simp add: nth_append length_decode_bits)
  next
    case False
    with Suc.prems have k: "k < n" by simp
    then have "n - k = Suc (n - 1 - k)" by simp
    then have "v div 2 ^ (n - k) = v div 2 div 2 ^ (n - 1 - k)"
      by (simp add: div_mult2_eq)
    with k Suc.IH [OF k, of "v div 2"] show ?thesis
      by (simp add: nth_append length_decode_bits)
  qed
qed

lemma concat_blocks_nth:
  "\<forall>b \<in> set bs. length (f b) = m \<Longrightarrow> i < length bs \<Longrightarrow> k < m \<Longrightarrow>
     concat (map f bs) ! (i * m + k) = f (bs ! i) ! k"
proof (induction bs arbitrary: i)
  case Nil
  then show ?case by simp
next
  case (Cons b bs)
  show ?case
  proof (cases i)
    case 0
    with Cons.prems show ?thesis by (simp add: nth_append)
  next
    case (Suc j)
    with Cons.prems have "concat (map f bs) ! (j * m + k) = f (bs ! j) ! k"
      by (intro Cons.IH) simp_all
    with Suc Cons.prems show ?thesis by (simp add: nth_append)
  qed
qed

lemma tobytes_nth:
  assumes "y < height im" and "j < bytes_per_row im"
  shows "tobytes im ! (y * bytes_per_row im + j) = pack_row (row_bits im y) ! j"
proof -
  have "concat (map (\<lambda>y. pack_row (row_bits im y)) [0..<height im]) ! (y * bytes_per_row im + j)
          = pack_row (row_bits im ([0..<height im] ! y)) ! j"
    using assms by (intro concat_blocks_nth) (simp_all add: length_packed_row)
  with assms show ?thesis by (simp add: tobytes_def)
qed

lemma packed_bit:
  assumes "x < 8 * bytes_per_row im"
  shows "odd (pack_row (row_bits im y) ! (x div 8) div 2 ^ (7 - x mod 8))
           = (x < width im \<and> getpixel im x y)"
proof -
  let ?bytes = "pack_row (row_bits im y)"
  have j: "x div 8 < length ?bytes" using assms by (simp add: length_packed_row)
  have "concat (map (decode_bits 8) ?bytes) ! (x div 8 * 8 + x mod 8)
          = decode_bits 8 (?bytes ! (x div 8)) ! (x mod 8)"
    using j by (intro concat_blocks_nth) (simp_all add: length_decode_bits del: decode_bits.simps)
  also have "\<dots> = odd (?bytes ! (x div 8) div 2 ^ (8 - 1 - x mod 8))"
    by (rule decode_bits_nth) simp
  finally have "odd (?bytes ! (x div 8) div 2 ^ (7 - x mod 8))
      = (row_bits im y @ replicate (8 * bytes_per_row im - width im) False) ! x"
    by (simp add: decode_pack_row length_row_bits bytes_per_row_def del: decode_bits.simps)
  also have "\<dots> = (x < width im \<and> getpixel im x y)"
    using assms by (auto simp: nth_append length_row_bits row_bits_def)
  finally show ?thesis .
qed

lemma bytes_per_row_ceiling: "int (bytes_per_row im) = \<lceil>rat_of_nat (width im) / 8\<rceil>"
proof -
  have "\<lceil>rat_of_nat (width im) / 8\<rceil> = \<lceil>rat_of_int (int (width im)) / rat_of_int 8\<rceil>"
    by simp
  also have "\<dots> = - (- int (width im) div 8)"
    by (rule ceiling_divide_eq_div)
  also have "\<dots> = int ((width im + 7) div 8)"
    by (simp add: zdiv_int; arith)
  finally show ?thesis by (simp add: bytes_per_row_def)
qed

lemma digit_char_decimal:
  "d < 10 \<Longrightarrow> is_digit (digit_char d) \<and> of_char (digit_char d) = 48 + d
     \<and> (digit_char d = CHR ''0'' \<longleftrightarrow> d = 0)"
proof -
  assume "d < 10"
  then have "d = 0 \<or> d = 1 \<or> d = 2 \<or> d = 3 \<or> d = 4 \<or> d = 5 \<or> d = 6 \<or> d = 7 \<or> d = 8 \<or> d = 9"
    using digit_char_cases [of d] by simp
  then show ?thesis by (auto simp: digit_char_def is_digit_def)
qed

lemma str_nat_nonempty: "str_nat n \<noteq> []"
  by (subst str_nat.simps) simp

lemma str_nat_digits: "list_all is_digit (str_nat n)"
proof (induction n rule: str_nat.induct)
  case (1 n)
  show ?case
  proof (cases "n < 10")
    case True
    then show ?thesis by (subst str_nat.simps) (simp add: digit_char_decimal)
  next
    case False
    have "is_digit (digit_char (n mod 10))" by (simp add: digit_char_decimal)
    with False 1 show ?thesis by (subst str_nat.simps) simp
  qed
qed

lemma str_nat_hd: "0 < n \<Longrightarrow> hd (str_nat n) \<noteq> CHR ''0''"
proof (induction n rule: str_nat.induct)
  case (1 n)
  show ?case
  proof (cases "n < 10")
    case True
    with 1 show ?thesis by (subst str_nat.simps) (simp add: digit_char_decimal)
  next
    case False
    then have "0 < n div 10" by simp
    with False 1 show ?thesis by (subst str_nat.simps) (simp add: str_nat_nonempty)
  qed
qed

lemma str_nat_zero: "str_nat 0 = ''0''"
  by (subst str_nat.simps) (simp add: digit_char_def)

lemma str_nat_unsigned: "is_unsigned_decimal (str_nat n)"
  by (cases "n = 0")
     (simp_all add: is_unsigned_decimal_def str_nat_zero str_nat_nonempty str_nat_digits str_nat_hd)

lemma decimal_value_snoc: "decimal_value (s @ [c]) = 10 * decimal_value s + (of_char c - 48)"
  by (simp add: decimal_value_def)

lemma decimal_value_str_nat: "decimal_value (str_nat n) = n"
proof (induction n rule: str_nat.induct)
  case (1 n)
  show ?case
  proof (cases "n < 10")
    case True
    then show ?thesis
      by (subst str_nat.simps) (simp add: decimal_value_def digit_char_decimal)
  next
    case False
    have "of_char (digit_char (n mod 10)) = 48 + n mod 10" by (simp add: digit_char_decimal)
    with False 1 show ?thesis
      by (subst str_nat.simps) (simp add: decimal_value_snoc)
  qed
qed

lemma str_nat_no_minus: "hd (str_nat n) \<noteq> CHR ''-''"
proof -
  have "is_digit (hd (str_nat n))"
    using str_nat_digits [of n] str_nat_nonempty [of n] by (cases "str_nat n") simp_all
  then show ?thesis by (auto simp: is_digit_def)
qed

lemma str_nat_decimal: "is_decimal (str_nat n)"
  using str_nat_unsigned [of n] str_nat_no_minus [of n] str_nat_nonempty [of n]
  by (cases "str_nat n") (simp_all add: is_decimal_def)

lemma str_int_decimal: "is_decimal (str_int i)"
proof (cases "i < 0")
  case True
  then have "0 < nat (- i)" by simp
  then have "str_nat (nat (- i)) \<noteq> ''0''"
    using str_nat_hd [of "nat (- i)"] by auto
  with True show ?thesis by (simp add: str_int_def is_decimal_def str_nat_unsigned)
next
  case False
  then show ?thesis by (simp add: str_int_def str_nat_decimal)
qed

text \<open>The integer a signed decimal numeral denotes.\<close>

lemma str_int_value:
  "(if i < 0 then - int (decimal_value (tl (str_int i))) else int (decimal_value (str_int i))) = i"
  by (simp add: str_int_def decimal_value_str_nat)

lemma width_to_mode1: "width (to_mode1 threshold loaded) = pil_width loaded"
  by (cases loaded) (simp_all add: to_mode1_def pil_width_def point_def convert_L_def)

lemma height_to_mode1: "height (to_mode1 threshold loaded) = pil_height loaded"
  by (cases loaded) (simp_all add: to_mode1_def pil_height_def point_def convert_L_def)

lemma hex_rows_shape:
  assumes "0 < width img"
  shows "length (hex_rows img) = height img
    \<and> (\<forall>row \<in> set (hex_rows img). length row = 2 * bytes_per_row img \<and> is_upper_hex row)"
proof -
  have "\<forall>v \<in> set (pack_row (row_bits img y)). v < 256" for y
    by (simp add: pack_row_bytes)
  then show ?thesis
    by (auto simp: hex_rows_eq [OF assms] length_hex_row upper_hex_row length_packed_row)
qed


lemma print_image_threshold:
  assumes "pil_image self = Some (Mode1 im)"
  shows "print_image (self\<lparr>threshold_var := t\<rparr>) = print_image self"
  using assms by (simp add: print_image_def to_mode1_def split: option.splits)

lemma tobytes_bit:
  assumes "y < height im" and "x < width im"
  shows "odd (tobytes im ! (y * bytes_per_row im + x div 8) div 2 ^ (7 - x mod 8)) = getpixel im x y"
proof -
  have x8: "x < 8 * bytes_per_row im" using assms(2) by (simp add: bytes_per_row_def)
  then have "x div 8 < bytes_per_row im" by simp
  with assms(1) have "tobytes im ! (y * bytes_per_row im + x div 8) = pack_row (row_bits im y) ! (x div 8)"
    by (rule tobytes_nth)
  with packed_bit [OF x8, of y] assms(2) show ?thesis by simp
qed


section \<open>Bounding boxes\<close>

lemma getbbox_None: "getbbox im = None \<longleftrightarrow> (\<forall>x < width im. \<forall>y < height im. getpixel im x y = 0)"
proof -
  have "getbbox im = None
      \<longleftrightarrow> filter (\<lambda>x. list_ex (\<lambda>y. getpixel im x y \<noteq> 0) [0..<height im]) [0..<width im] = []"
    by (simp add: getbbox_def Let_def)
  also have "\<dots> \<longleftrightarrow> (\<forall>x < width im. \<forall>y < height im. getpixel im x y = 0)"
    by (simp add: filter_empty_conv list_ex_iff Ball_def)
  finally show ?thesis .
qed

lemma ink_pixel:
  "getpixel (invert (point threshold_fn gray)) x y \<noteq> 0 \<longleftrightarrow> getpixel gray x y < 240"
  by (simp add: invert_def point_def threshold_fn_def)

lemma size_ink_mask:
  "width (invert (point threshold_fn gray)) = width gray"
  "height (invert (point threshold_fn gray)) = height gray"
  by (simp_all add: invert_def point_def)

lemma size_convert_L:
  "width (convert_L img) = pil_width img" "height (convert_L img) = pil_height img"
  by (cases img; simp add: convert_L_def point_def pil_width_def pil_height_def)+

lemma no_ink_no_bbox:
  "getbbox (invert (point threshold_fn gray)) = None
     \<longleftrightarrow> (\<forall>x < width gray. \<forall>y < height gray. 240 \<le> getpixel gray x y)"
  unfolding getbbox_None size_ink_mask
  using ink_pixel [of gray] by (metis not_le)


section \<open>Cropping, rotation and the example pages\<close>


lemma rotate90_pixel:
  "x < width im \<Longrightarrow> getpixel (rotate90 im) y (width im - 1 - x) = getpixel im x y"
  by (simp add: rotate90_def)












lemma scenario_inches: "5 < fl (1230 / 203)"
  by code_simp

lemma label_examples:
  "fl (of_int (1430 - 200) / of_nat 203) = 6821955100573535 / 1125899906842624"
  "fl (of_int (1120 - 300) / of_nat 203) = 4547970067049023 / 1125899906842624"
  "fl (of_int (20 - 10) / of_nat 5) = 2"
  "fl (of_int (15 - 10) / of_nat 5) = 1"
  "fl (2 + fl (1 / 5)) = 2476979795053773 / 1125899906842624"
  "fl (1 + fl (1 / 5)) = 5404319552844595 / 4503599627370496"
  by code_simp+


section \<open>The raster block\<close>

text \<open>
  Claim C2. For a bilevel bitmap of positive width and height, \<open>bytes_per_row\<close> is the
  width divided by eight and rounded up, and \<open>total_bytes\<close> is \<open>bytes_per_row\<close> times the
  height (102 and 124236 for 812 by 1218 pixels); the byte string has that length;
  pixel \<open>x\<close> of row \<open>y\<close> is bit \<open>7 - x mod 8\<close> of byte \<open>x div 8\<close> of that row, the most
  significant bit first, and the bits of the last byte beyond the width are zero; the
  text has one line per row, of two upper-case hexadecimal digits per byte, the lines
  joined by line feeds; and reading the text back gives the bits of every row followed
  by the zero padding.
\<close>

theorem raster_round_trip:
  assumes "0 < width img" and "0 < height img"
  shows "int (bytes_per_row img) = \<lceil>rat_of_nat (width img) / 8\<rceil>
    \<and> total_bytes img = bytes_per_row img * height img
    \<and> (width img = 812 \<and> height img = 1218
          \<longrightarrow> bytes_per_row img = 102 \<and> total_bytes img = 124236)
    \<and> length (tobytes img) = total_bytes img
    \<and> (\<forall>y < height img. \<forall>x < 8 * bytes_per_row img.
          odd (tobytes img ! (y * bytes_per_row img + x div 8) div 2 ^ (7 - x mod 8))
            = (x < width img \<and> getpixel img x y))
    \<and> length (hex_rows img) = height img
    \<and> (\<forall>row \<in> set (hex_rows img). length row = 2 * bytes_per_row img \<and> is_upper_hex row)
    \<and> hex_data img = join NL (hex_rows img)
    \<and> decode_hex_data (hex_data img)
         = Some (map (\<lambda>y. row_bits img y @ replicate (8 * bytes_per_row img - width img) False)
                   [0..<height img])"
proof -
  let ?packed = "\<lambda>y. pack_row (row_bits img y)"
  let ?hex = "\<lambda>y. concat (map format_02X (?packed y))"
  let ?padded = "\<lambda>y. row_bits img y @ replicate (8 * bytes_per_row img - width img) False"
  have rows: "hex_rows img = map ?hex [0..<height img]"
    by (rule hex_rows_eq [OF assms(1)])
  have bytes: "\<forall>v \<in> set (?packed y). v < 256" for y
    by (simp add: pack_row_bytes)
  have scenario: "width img = 812 \<and> height img = 1218
          \<longrightarrow> bytes_per_row img = 102 \<and> total_bytes img = 124236"
    by (simp add: bytes_per_row_def total_bytes_def)
  have bit: "\<forall>y < height img. \<forall>x < 8 * bytes_per_row img.
          odd (tobytes img ! (y * bytes_per_row img + x div 8) div 2 ^ (7 - x mod 8))
            = (x < width img \<and> getpixel img x y)"
  proof (intro allI impI)
    fix y x
    assume y: "y < height img" and x: "x < 8 * bytes_per_row img"
    then have "x div 8 < bytes_per_row img" by simp
    with y have "tobytes img ! (y * bytes_per_row img + x div 8) = ?packed y ! (x div 8)"
      by (rule tobytes_nth)
    with packed_bit [OF x, of y]
    show "odd (tobytes img ! (y * bytes_per_row img + x div 8) div 2 ^ (7 - x mod 8))
            = (x < width img \<and> getpixel img x y)"
      by simp
  qed
  have shape: "\<forall>row \<in> set (hex_rows img). length row = 2 * bytes_per_row img \<and> is_upper_hex row"
    using bytes by (auto simp: rows length_hex_row upper_hex_row length_packed_row)
  have nonempty: "hex_rows img \<noteq> []"
    using assms(2) by (simp add: rows)
  have "\<forall>row \<in> set (hex_rows img). CHR 0x0A \<notin> set row"
    using shape upper_hex_no_newline by blast
  then have split: "split_on (CHR 0x0A) (hex_data img) = hex_rows img"
    unfolding hex_data_def NL_def by (rule split_on_join [OF nonempty])
  have "decode_hex_row (?hex y) = Some (?padded y)" for y
    using decode_hex_row_bytes [OF bytes, of y]
    by (simp add: decode_pack_row length_row_bits bytes_per_row_def del: decode_bits.simps)
  then have "those (map decode_hex_row (map ?hex [0..<height img]))
               = Some (map ?padded [0..<height img])"
    by (simp add: comp_def those_map_Some del: decode_bits.simps)
  then have decode: "decode_hex_data (hex_data img) = Some (map ?padded [0..<height img])"
    by (simp add: decode_hex_data_def split rows)
  show ?thesis
    using bytes_per_row_ceiling [of img] scenario length_tobytes [of img] bit shape decode
    by (simp add: total_bytes_def hex_data_def rows)
qed

lemma stripes_padded:
  "map (\<lambda>y. row_bits stripes_9x2 y @ replicate (8 * bytes_per_row stripes_9x2 - width stripes_9x2) False)
       [0..<height stripes_9x2]
   = [[True, False, True, False, True, False, True, False,
       True, False, False, False, False, False, False, False],
      [False, True, False, True, False, True, False, True,
       False, False, False, False, False, False, False, False]]"
  by code_simp

lemma stripes_hex_data: "hex_data stripes_9x2 = ''AA80'' @ NL @ ''5500''"
  by code_simp

theorem raster_round_trip_witness:
  "0 < width stripes_9x2 \<and> 0 < height stripes_9x2
   \<and> bytes_per_row stripes_9x2 = 2
   \<and> decode_hex_data (''AA80'' @ NL @ ''5500'')
       = Some [[True, False, True, False, True, False, True, False,
                True, False, False, False, False, False, False, False],
               [False, True, False, True, False, True, False, True,
                False, False, False, False, False, False, False, False]]
   \<and> width blank_label = 812 \<and> height blank_label = 1218
   \<and> bytes_per_row blank_label = 102 \<and> total_bytes blank_label = 124236"
proof -
  have small: "0 < width stripes_9x2" "0 < height stripes_9x2"
    by (simp_all add: stripes_9x2_def)
  have big: "0 < width blank_label" "0 < height blank_label"
    by (simp_all add: blank_label_def)
  have size: "width blank_label = 812 \<and> height blank_label = 1218"
    by (simp add: blank_label_def)
  have "decode_hex_data (hex_data stripes_9x2)
      = Some (map (\<lambda>y. row_bits stripes_9x2 y
                 @ replicate (8 * bytes_per_row stripes_9x2 - width stripes_9x2) False)
               [0..<height stripes_9x2])"
    using raster_round_trip [OF small] by blast
  then have decoded: "decode_hex_data (''AA80'' @ NL @ ''5500'')
       = Some [[True, False, True, False, True, False, True, False,
                True, False, False, False, False, False, False, False],
               [False, True, False, True, False, True, False, True,
                False, False, False, False, False, False, False, False]]"
    unfolding stripes_padded stripes_hex_data .
  have "width blank_label = 812 \<and> height blank_label = 1218
          \<longrightarrow> bytes_per_row blank_label = 102 \<and> total_bytes blank_label = 124236"
    using raster_round_trip [OF big] by blast
  with size have "bytes_per_row blank_label = 102 \<and> total_bytes blank_label = 124236"
    by blast
  moreover have "bytes_per_row stripes_9x2 = 2"
    by (simp add: bytes_per_row_def stripes_9x2_def)
  ultimately show ?thesis
    using small size decoded by blast
qed

section \<open>The print job\<close>

text \<open>
  Claim C1. When a file has been chosen and loaded, the label size is one of the two
  the dialog offers and the image has a positive width, \<open>print_image\<close> emits exactly
  the lines \<^verbatim>\<open>^XA\<close>, \<^verbatim>\<open>^PW\<close> width, \<^verbatim>\<open>^LL\<close> length, \<^verbatim>\<open>^PR\<close> speed \<^verbatim>\<open>,0,0\<close>, \<^verbatim>\<open>^MD\<close> darkness,
  \<^verbatim>\<open>^PQ\<close> quantity, \<^verbatim>\<open>^FO\<close> x \<^verbatim>\<open>,\<close> y, \<^verbatim>\<open>^GFA,\<close> total \<^verbatim>\<open>,\<close> total \<^verbatim>\<open>,\<close> bytes per row \<^verbatim>\<open>,\<close>, the
  hexadecimal rows joined by line feeds, \<^verbatim>\<open>^FS\<close> and \<^verbatim>\<open>^XZ\<close>. The total is the same number
  in both places. Every number is written as a decimal numeral without leading zeros
  that denotes it, and every row consists of upper-case hexadecimal digits only, two
  for each byte of the row.
\<close>

theorem print_job_text:
  assumes "image_path self = Some path" and "path \<noteq> []"
    and "label_sizes (label_size_var self) = Some (pw, ll)"
    and "pil_image self = Some loaded"
    and "0 < pil_width loaded"
    and "img = to_mode1 (threshold_var self) loaded"
  shows "print_image self = Inr (Some (
        ''^XA'' @ NL
        @ ''^PW'' @ str_int pw @ NL
        @ ''^LL'' @ str_int ll @ NL
        @ ''^PR'' @ str_int (speed_var self) @ '',0,0'' @ NL
        @ ''^MD'' @ str_int (darkness_var self) @ NL
        @ ''^PQ'' @ str_int (quantity_var self) @ NL
        @ ''^FO'' @ str_int (pos_x_var self) @ '','' @ str_int (pos_y_var self) @ NL
        @ ''^GFA,'' @ str_nat (bytes_per_row img * height img) @ '',''
            @ str_nat (bytes_per_row img * height img) @ '',''
            @ str_nat ((width img + 7) div 8) @ '','' @ NL
        @ join NL (hex_rows img) @ NL
        @ ''^FS'' @ NL
        @ ''^XZ''))
    \<and> (\<forall>i. is_decimal (str_int i)
          \<and> (if i < 0 then - int (decimal_value (tl (str_int i)))
              else int (decimal_value (str_int i))) = i)
    \<and> (\<forall>n. is_decimal (str_nat n) \<and> decimal_value (str_nat n) = n)
    \<and> length (hex_rows img) = height img
    \<and> (\<forall>row \<in> set (hex_rows img). length row = 2 * bytes_per_row img \<and> is_upper_hex row)"
proof -
  have w: "0 < width img" using assms(5,6) by (simp add: width_to_mode1)
  then have "bytes_per_row img \<noteq> 0" by (simp add: bytes_per_row_def)
  then have "print_image self = Inr (Some (zpl pw ll (speed_var self) (darkness_var self)
         (quantity_var self) (pos_x_var self) (pos_y_var self) img))"
    using assms(1-4,6) by (simp add: print_image_def)
  then show ?thesis
    using hex_rows_shape [OF w]
    by (simp add: zpl_def total_bytes_def bytes_per_row_def hex_data_def
        str_int_decimal str_int_value str_nat_decimal decimal_value_str_nat)
qed

lemma default_app_fields:
  "str_int 812 = ''812''" "str_int 1218 = ''1218''" "str_int 2 = ''2''" "str_int 25 = ''25''"
  "str_int 1 = ''1''" "str_int 0 = ''0''" "str_int 10 = ''10''"
  "str_nat 4 = ''4''" "str_nat 2 = ''2''"
  by code_simp+

lemma default_app_rows: "hex_rows stripes_9x2 = [''AA80'', ''5500'']"
  by code_simp

theorem print_job_text_witness:
  "print_image default_app = Inr (Some (
        ''^XA'' @ NL @ ''^PW812'' @ NL @ ''^LL1218'' @ NL @ ''^PR2,0,0'' @ NL @ ''^MD25'' @ NL
        @ ''^PQ1'' @ NL @ ''^FO0,10'' @ NL @ ''^GFA,4,4,2,'' @ NL
        @ ''AA80'' @ NL @ ''5500'' @ NL @ ''^FS'' @ NL @ ''^XZ''))"
proof -
  have "image_path default_app = Some ''label.png''" and "''label.png'' \<noteq> []"
    and "label_sizes (label_size_var default_app) = Some (812, 1218)"
    and "pil_image default_app = Some (Mode1 stripes_9x2)"
    and "0 < pil_width (Mode1 stripes_9x2)"
    and "stripes_9x2 = to_mode1 (threshold_var default_app) (Mode1 stripes_9x2)"
    by (simp_all add: default_app_def label_sizes_def pil_width_def stripes_9x2_def to_mode1_def)
  from print_job_text [OF this]
  have "print_image default_app = Inr (Some (
        ''^XA'' @ NL
        @ ''^PW'' @ str_int 812 @ NL
        @ ''^LL'' @ str_int 1218 @ NL
        @ ''^PR'' @ str_int (speed_var default_app) @ '',0,0'' @ NL
        @ ''^MD'' @ str_int (darkness_var default_app) @ NL
        @ ''^PQ'' @ str_int (quantity_var default_app) @ NL
        @ ''^FO'' @ str_int (pos_x_var default_app) @ '','' @ str_int (pos_y_var default_app) @ NL
        @ ''^GFA,'' @ str_nat (bytes_per_row stripes_9x2 * height stripes_9x2) @ '',''
            @ str_nat (bytes_per_row stripes_9x2 * height stripes_9x2) @ '',''
            @ str_nat ((width stripes_9x2 + 7) div 8) @ '','' @ NL
        @ join NL (hex_rows stripes_9x2) @ NL
        @ ''^FS'' @ NL
        @ ''^XZ''))"
    by blast
  moreover have "bytes_per_row stripes_9x2 * height stripes_9x2 = 4"
    and "(width stripes_9x2 + 7) div 8 = 2"
    by (simp_all add: bytes_per_row_def stripes_9x2_def)
  ultimately show ?thesis
    by (simp add: default_app_def default_app_fields default_app_rows)
qed

section \<open>Bitmaps without pixels\<close>

text \<open>
  Claim C3 says that a bitmap of zero width or zero height is rejected with an error
  before anything is emitted. \<open>print_image\<close> has no such check. For a bitmap 8 pixels
  wide and 0 pixels high it emits a complete job whose \<^verbatim>\<open>^GFA\<close> field announces 0 bytes
  and has an empty body.
\<close>

theorem zero_height_not_rejected:
  "map_option pil_width (pil_image zero_height_app) = Some 8
   \<and> map_option pil_height (pil_image zero_height_app) = Some 0
   \<and> print_image zero_height_app = Inr (Some (
        ''^XA'' @ NL @ ''^PW812'' @ NL @ ''^LL1218'' @ NL @ ''^PR2,0,0'' @ NL @ ''^MD25'' @ NL
        @ ''^PQ1'' @ NL @ ''^FO0,10'' @ NL @ ''^GFA,0,0,1,'' @ NL
        @ '''' @ NL @ ''^FS'' @ NL @ ''^XZ''))"
  by code_simp


text \<open>
  Claim C3 as amended. A bitmap of zero width makes \<open>print_image\<close> fail before it emits
  anything: the row length is zero and \<^verbatim>\<open>range\<close> refuses a step of zero. A bitmap of
  positive width and zero height is not rejected: the job is emitted with a \<^verbatim>\<open>^GFA\<close>
  field of 0 bytes and an empty body.
\<close>

theorem zero_size_bitmaps:
  assumes "image_path self = Some path" and "path \<noteq> []"
    and "label_sizes (label_size_var self) = Some (pw, ll)"
    and "pil_image self = Some loaded"
  shows "(pil_width loaded = 0 \<longrightarrow> print_image self = Inl ValueError)
    \<and> (0 < pil_width loaded \<and> pil_height loaded = 0 \<longrightarrow>
         print_image self = Inr (Some (
          ''^XA'' @ NL
          @ ''^PW'' @ str_int pw @ NL
          @ ''^LL'' @ str_int ll @ NL
          @ ''^PR'' @ str_int (speed_var self) @ '',0,0'' @ NL
          @ ''^MD'' @ str_int (darkness_var self) @ NL
          @ ''^PQ'' @ str_int (quantity_var self) @ NL
          @ ''^FO'' @ str_int (pos_x_var self) @ '','' @ str_int (pos_y_var self) @ NL
          @ ''^GFA,0,0,'' @ str_nat ((pil_width loaded + 7) div 8) @ '','' @ NL
          @ NL
          @ ''^FS'' @ NL
          @ ''^XZ'')))"
proof (intro conjI impI)
  let ?img = "to_mode1 (threshold_var self) loaded"
  assume "pil_width loaded = 0"
  then have "bytes_per_row ?img = 0" by (simp add: bytes_per_row_def width_to_mode1)
  then show "print_image self = Inl ValueError"
    using assms by (simp add: print_image_def)
next
  let ?img = "to_mode1 (threshold_var self) loaded"
  assume a: "0 < pil_width loaded \<and> pil_height loaded = 0"
  then have w: "0 < width ?img" and h: "height ?img = 0"
    by (simp_all add: width_to_mode1 height_to_mode1)
  from w have step: "bytes_per_row ?img \<noteq> 0" by (simp add: bytes_per_row_def)
  have "hex_rows ?img = []" using hex_rows_shape [OF w] h by simp
  then have "hex_data ?img = []" by (simp add: hex_data_def)
  moreover have "print_image self = Inr (Some (zpl pw ll (speed_var self) (darkness_var self)
         (quantity_var self) (pos_x_var self) (pos_y_var self) ?img))"
    using assms step by (simp add: print_image_def)
  ultimately show "print_image self = Inr (Some (
          ''^XA'' @ NL
          @ ''^PW'' @ str_int pw @ NL
          @ ''^LL'' @ str_int ll @ NL
          @ ''^PR'' @ str_int (speed_var self) @ '',0,0'' @ NL
          @ ''^MD'' @ str_int (darkness_var self) @ NL
          @ ''^PQ'' @ str_int (quantity_var self) @ NL
          @ ''^FO'' @ str_int (pos_x_var self) @ '','' @ str_int (pos_y_var self) @ NL
          @ ''^GFA,0,0,'' @ str_nat ((pil_width loaded + 7) div 8) @ '','' @ NL
          @ NL
          @ ''^FS'' @ NL
          @ ''^XZ''))"
    using h by (simp add: zpl_def total_bytes_def bytes_per_row_def width_to_mode1 str_nat_zero)
qed

theorem zero_size_bitmaps_witness:
  "print_image zero_width_app = Inl ValueError
   \<and> print_image zero_height_app = Inr (Some (
        ''^XA'' @ NL @ ''^PW812'' @ NL @ ''^LL1218'' @ NL @ ''^PR2,0,0'' @ NL @ ''^MD25'' @ NL
        @ ''^PQ1'' @ NL @ ''^FO0,10'' @ NL @ ''^GFA,0,0,1,'' @ NL @ NL @ ''^FS'' @ NL @ ''^XZ''))"
proof -
  let ?w = "\<lparr>width = 0, height = 8, getpixel = (\<lambda>x y. True)\<rparr> :: bool image"
  let ?h = "\<lparr>width = 8, height = 0, getpixel = (\<lambda>x y. True)\<rparr> :: bool image"
  have "image_path zero_width_app = Some ''label.png''" and "''label.png'' \<noteq> []"
    and "label_sizes (label_size_var zero_width_app) = Some (812, 1218)"
    and "pil_image zero_width_app = Some (Mode1 ?w)"
    by (simp_all add: zero_width_app_def default_app_def label_sizes_def)
  from zero_size_bitmaps [OF this]
  have first: "print_image zero_width_app = Inl ValueError"
    by (simp add: pil_width_def)
  have "image_path zero_height_app = Some ''label.png''" and "''label.png'' \<noteq> []"
    and "label_sizes (label_size_var zero_height_app) = Some (812, 1218)"
    and "pil_image zero_height_app = Some (Mode1 ?h)"
    by (simp_all add: zero_height_app_def default_app_def label_sizes_def)
  from zero_size_bitmaps [OF this]
  have "print_image zero_height_app = Inr (Some (
          ''^XA'' @ NL
          @ ''^PW'' @ str_int 812 @ NL
          @ ''^LL'' @ str_int 1218 @ NL
          @ ''^PR'' @ str_int (speed_var zero_height_app) @ '',0,0'' @ NL
          @ ''^MD'' @ str_int (darkness_var zero_height_app) @ NL
          @ ''^PQ'' @ str_int (quantity_var zero_height_app) @ NL
          @ ''^FO'' @ str_int (pos_x_var zero_height_app) @ '','' @ str_int (pos_y_var zero_height_app) @ NL
          @ ''^GFA,0,0,'' @ str_nat ((pil_width (Mode1 ?h) + 7) div 8) @ '','' @ NL
          @ NL
          @ ''^FS'' @ NL
          @ ''^XZ''))"
    by (simp add: pil_width_def pil_height_def)
  moreover have "str_nat 1 = ''1''" by code_simp
  ultimately show ?thesis
    using first
    by (simp add: zero_height_app_def default_app_def default_app_fields pil_width_def)
qed

section \<open>Images that are bilevel already\<close>

text \<open>
  Claim C10 says that an image of mode \<^verbatim>\<open>'1'\<close> is packed as it is, whatever the
  threshold, and therefore prints with the opposite polarity of the same picture handed
  over as a grey image. The second half fails at the threshold 0, which the dialog
  allows: every grey sample is then at or above the threshold and gives a clear bit,
  so that a black pixel gets the same bit, 0, on both paths. For the picture of
  alternating pixels the bilevel image gives the rows AA80 and 5500, the grey image
  0000 and 0000.
\<close>

theorem same_bit_at_threshold_zero:
  "getpixel stripes_9x2 1 0 = False
   \<and> getpixel (convert_L (Mode1 stripes_9x2)) 1 0 = 0
   \<and> hex_rows (to_mode1 0 (Mode1 stripes_9x2)) = [''AA80'', ''5500'']
   \<and> hex_rows (to_mode1 0 (ModeL (convert_L (Mode1 stripes_9x2)))) = [''0000'', ''0000'']
   \<and> odd (tobytes (to_mode1 0 (ModeL (convert_L (Mode1 stripes_9x2)))) ! 0 div 2 ^ 6)
       = odd (tobytes (to_mode1 0 (Mode1 stripes_9x2)) ! 0 div 2 ^ 6)"
  by code_simp

text \<open>
  Claim C10 as amended. When the loaded image has mode \<^verbatim>\<open>'1'\<close>, the threshold has no
  effect on what \<open>print_image\<close> emits, and the image is packed as it is: a set bit for
  every non-zero (white) pixel. A grey image is cut at the threshold first, a sample
  below the threshold giving a set bit and any other sample a clear bit. So the same
  picture handed over as a grey image (white 255, black 0) and cut at a threshold from
  1 to 255 gives, at every pixel, the opposite bit of the bilevel image. At a
  threshold of 0 or less the grey image gives clear bits only, and at a threshold
  above 255 set bits only, so that only the pixels of one colour come out opposite.
\<close>

theorem bilevel_input_skips_threshold:
  assumes "pil_image self = Some (Mode1 im)"
    and "grey = ModeL (convert_L (Mode1 im))"
  shows "print_image (self\<lparr>threshold_var := t1\<rparr>) = print_image (self\<lparr>threshold_var := t2\<rparr>)
    \<and> to_mode1 t1 (Mode1 im) = im
    \<and> (\<forall>g x y. getpixel (to_mode1 t1 (ModeL g)) x y = (int (getpixel g x y) < t1))
    \<and> (0 < t1 \<and> t1 \<le> 255 \<longrightarrow>
         bytes_per_row (to_mode1 t1 grey) = bytes_per_row (to_mode1 t1 (Mode1 im))
         \<and> (\<forall>y < height im. \<forall>x < width im.
               odd (tobytes (to_mode1 t1 grey) ! (y * bytes_per_row im + x div 8)
                      div 2 ^ (7 - x mod 8))
                 = (\<not> odd (tobytes (to_mode1 t1 (Mode1 im)) ! (y * bytes_per_row im + x div 8)
                      div 2 ^ (7 - x mod 8)))))
    \<and> (t1 \<le> 0 \<longrightarrow> (\<forall>x y. \<not> getpixel (to_mode1 t1 grey) x y))
    \<and> (255 < t1 \<longrightarrow> (\<forall>x y. getpixel (to_mode1 t1 grey) x y))"
proof -
  have same: "print_image (self\<lparr>threshold_var := t1\<rparr>) = print_image (self\<lparr>threshold_var := t2\<rparr>)"
    using assms(1) by (simp add: print_image_threshold)
  have direct: "to_mode1 t1 (Mode1 im) = im" by (simp add: to_mode1_def)
  have cut: "\<forall>g x y. getpixel (to_mode1 t1 (ModeL g)) x y = (int (getpixel g x y) < t1)"
    by (auto simp: to_mode1_def point_def)
  have opposite: "bytes_per_row (to_mode1 t1 grey) = bytes_per_row (to_mode1 t1 (Mode1 im))
         \<and> (\<forall>y < height im. \<forall>x < width im.
               odd (tobytes (to_mode1 t1 grey) ! (y * bytes_per_row im + x div 8)
                      div 2 ^ (7 - x mod 8))
                 = (\<not> odd (tobytes (to_mode1 t1 (Mode1 im)) ! (y * bytes_per_row im + x div 8)
                      div 2 ^ (7 - x mod 8))))"
    if t: "0 < t1 \<and> t1 \<le> 255"
  proof -
    let ?g = "to_mode1 t1 grey"
    have size: "width ?g = width im" "height ?g = height im"
      by (simp_all add: assms(2) to_mode1_def convert_L_def point_def)
    have bpr: "bytes_per_row ?g = bytes_per_row im" by (simp add: bytes_per_row_def size)
    have px: "getpixel ?g x y = (\<not> getpixel im x y)" for x y
      using t by (simp add: assms(2) to_mode1_def convert_L_def point_def)
    have "odd (tobytes ?g ! (y * bytes_per_row im + x div 8) div 2 ^ (7 - x mod 8))
            = (\<not> odd (tobytes im ! (y * bytes_per_row im + x div 8) div 2 ^ (7 - x mod 8)))"
      if "y < height im" and "x < width im" for x y
      using tobytes_bit [of y ?g x] tobytes_bit [of y im x] that by (simp add: size bpr px)
    then show ?thesis by (simp add: bpr direct)
  qed
  have low: "\<forall>x y. \<not> getpixel (to_mode1 t1 grey) x y" if "t1 \<le> 0"
    using that by (simp add: assms(2) to_mode1_def convert_L_def point_def)
  have high: "\<forall>x y. getpixel (to_mode1 t1 grey) x y" if "255 < t1"
    using that by (simp add: assms(2) to_mode1_def convert_L_def point_def)
  from same direct cut opposite low high show ?thesis by blast
qed

theorem bilevel_input_skips_threshold_witness:
  "print_image (default_app\<lparr>threshold_var := 1\<rparr>) = print_image (default_app\<lparr>threshold_var := 255\<rparr>)
   \<and> (0::int) < 128 \<and> (128::int) \<le> 255
   \<and> odd (tobytes (to_mode1 128 (ModeL (convert_L (Mode1 stripes_9x2)))) ! 1 div 2 ^ 7)
       = (\<not> odd (tobytes (to_mode1 128 (Mode1 stripes_9x2)) ! 1 div 2 ^ 7))
   \<and> \<not> getpixel (to_mode1 0 (ModeL (convert_L (Mode1 stripes_9x2)))) 0 0
   \<and> getpixel (to_mode1 256 (ModeL (convert_L (Mode1 stripes_9x2)))) 1 0"
proof -
  have loaded: "pil_image default_app = Some (Mode1 stripes_9x2)"
    by (simp add: default_app_def)
  note inst = bilevel_input_skips_threshold [OF loaded refl]
  have t: "(0::int) < 128 \<and> (128::int) \<le> 255" by simp
  have "print_image (default_app\<lparr>threshold_var := 1\<rparr>) = print_image (default_app\<lparr>threshold_var := 255\<rparr>)"
    using inst [of 1 255] by blast
  moreover have every: "\<forall>y < height stripes_9x2. \<forall>x < width stripes_9x2.
       odd (tobytes (to_mode1 128 (ModeL (convert_L (Mode1 stripes_9x2))))
              ! (y * bytes_per_row stripes_9x2 + x div 8) div 2 ^ (7 - x mod 8))
         = (\<not> odd (tobytes (to_mode1 128 (Mode1 stripes_9x2))
              ! (y * bytes_per_row stripes_9x2 + x div 8) div 2 ^ (7 - x mod 8)))"
    using inst [of 128 128] t by blast
  have y: "0 < height stripes_9x2" and x: "8 < width stripes_9x2"
    by (simp_all add: stripes_9x2_def)
  have idx: "0 * bytes_per_row stripes_9x2 + 8 div 8 = 1" "7 - 8 mod 8 = (7::nat)"
    by simp_all
  have "odd (tobytes (to_mode1 128 (ModeL (convert_L (Mode1 stripes_9x2))))
              ! (0 * bytes_per_row stripes_9x2 + 8 div 8) div 2 ^ (7 - 8 mod 8))
         = (\<not> odd (tobytes (to_mode1 128 (Mode1 stripes_9x2))
              ! (0 * bytes_per_row stripes_9x2 + 8 div 8) div 2 ^ (7 - 8 mod 8)))"
    using every y x by blast
  then have "odd (tobytes (to_mode1 128 (ModeL (convert_L (Mode1 stripes_9x2)))) ! 1 div 2 ^ 7)
       = (\<not> odd (tobytes (to_mode1 128 (Mode1 stripes_9x2)) ! 1 div 2 ^ 7))"
    unfolding idx .
  moreover have "\<not> getpixel (to_mode1 0 (ModeL (convert_L (Mode1 stripes_9x2)))) 0 0"
  proof -
    have "(0::int) \<le> 0
      \<longrightarrow> (\<forall>x y. \<not> getpixel (to_mode1 0 (ModeL (convert_L (Mode1 stripes_9x2)))) x y)"
      using inst [of 0 0] by blast
    then show ?thesis by simp
  qed
  moreover have "getpixel (to_mode1 256 (ModeL (convert_L (Mode1 stripes_9x2)))) 1 0"
  proof -
    have "(255::int) < 256
      \<longrightarrow> (\<forall>x y. getpixel (to_mode1 256 (ModeL (convert_L (Mode1 stripes_9x2)))) x y)"
      using inst [of 256 256] by blast
    then show ?thesis by simp
  qed
  ultimately show ?thesis using t by blast
qed

section \<open>Pages that are not letter-sized\<close>

text \<open>
  Claim C4. A page counts as letter-sized exactly when its size in inches lies
  strictly between 7.5 and 9.5 by strictly between 10 and 12, or the other way round;
  and for a page that does not, \<open>extract_label_from_pdf\<close> returns the rendered page
  itself: nothing is cropped, refined or rotated.
\<close>

theorem non_letter_page_unchanged:
  "(is_letter_size w h \<longleftrightarrow>
      (15 / 2 < w \<and> w < 19 / 2 \<and> 10 < h \<and> h < 12) \<or> (10 < w \<and> w < 12 \<and> 15 / 2 < h \<and> h < 19 / 2))
   \<and> is_letter_size w h = is_letter_size h w
   \<and> (\<not> is_letter_size (page_width_in page) (page_height_in page) \<longrightarrow>
        extract_label_from_pdf page target_dpi = Inr (get_pixmap page target_dpi))"
  by (auto simp: is_letter_size_def extract_label_from_pdf_def)

lemma label_page_inches: "page_width_in label_page = 4" "page_height_in label_page = 6"
  by code_simp+

theorem non_letter_page_unchanged_witness:
  "\<not> is_letter_size 4 6 \<and> is_letter_size (17 / 2) 11 \<and> \<not> is_letter_size (15 / 2) 11
   \<and> extract_label_from_pdf label_page 203 = Inr (get_pixmap label_page 203)"
proof -
  note rule = non_letter_page_unchanged [of 4 6 label_page 203]
  have not_letter: "\<not> is_letter_size 4 6"
    using non_letter_page_unchanged [of 4 6] by simp
  moreover have "is_letter_size (17 / 2) 11"
    using non_letter_page_unchanged [of "17 / 2" 11] by simp
  moreover have "\<not> is_letter_size (15 / 2) 11"
    using non_letter_page_unchanged [of "15 / 2" 11] by simp
  moreover have "extract_label_from_pdf label_page 203 = Inr (get_pixmap label_page 203)"
    using rule not_letter by (simp add: label_page_inches)
  ultimately show ?thesis by blast
qed


section \<open>Pages without ink\<close>

text \<open>
  Claim C8. On a letter-sized page the bounding box detector finds no box exactly when
  no grey sample of the page is below 240, and in that case
  \<open>extract_label_from_pdf\<close> returns the rendered page itself, without an error.
\<close>

theorem blank_page_returned:
  assumes "is_letter_size (page_width_in page) (page_height_in page)"
    and "img = get_pixmap page target_dpi"
    and "gray = convert_L img"
  shows "(getbbox (invert (point threshold_fn gray)) = None
           \<longleftrightarrow> (\<forall>x < pil_width img. \<forall>y < pil_height img. 240 \<le> getpixel gray x y))
    \<and> ((\<forall>x < pil_width img. \<forall>y < pil_height img. 240 \<le> getpixel gray x y)
         \<longrightarrow> extract_label_from_pdf page target_dpi = Inr img)"
proof -
  have iff: "getbbox (invert (point threshold_fn gray)) = None
           \<longleftrightarrow> (\<forall>x < pil_width img. \<forall>y < pil_height img. 240 \<le> getpixel gray x y)"
    by (simp add: no_ink_no_bbox assms(3) size_convert_L)
  then have "extract_label_from_pdf page target_dpi = Inr img"
    if "\<forall>x < pil_width img. \<forall>y < pil_height img. 240 \<le> getpixel gray x y"
    using that assms by (simp add: extract_label_from_pdf_def)
  with iff show ?thesis by blast
qed

lemma white_letter_page_inches:
  "page_width_in white_letter_page = 17 / 2" "page_height_in white_letter_page = 11"
  by code_simp+

theorem blank_page_returned_witness:
  "is_letter_size (page_width_in white_letter_page) (page_height_in white_letter_page)
   \<and> extract_label_from_pdf white_letter_page 203 = Inr (get_pixmap white_letter_page 203)"
proof -
  have letter: "is_letter_size (page_width_in white_letter_page) (page_height_in white_letter_page)"
    by (simp add: white_letter_page_inches is_letter_size_def)
  have white: "\<forall>x < pil_width (get_pixmap white_letter_page 203).
      \<forall>y < pil_height (get_pixmap white_letter_page 203).
        240 \<le> getpixel (convert_L (get_pixmap white_letter_page 203)) x y"
    by (simp add: white_letter_page_def convert_L_def point_def rgb2l_def)
  show ?thesis
    using blank_page_returned [OF letter refl refl] white letter by blast
qed

section \<open>Bounding boxes that cover the page\<close>



section \<open>Rotation\<close>



section \<open>The size of the label\<close>

text \<open>
  Claim C6. The content extents in inches are the extents of the bounding box divided
  by the resolution. When the larger one is above 5 the label is 6 by 4 inches, long
  edge by short edge; otherwise, when it is above 3, the label is 4 by 2 inches;
  otherwise the long edge is the larger extent plus 0.2 and the short edge the smaller
  extent plus 0.2. The crop rectangle is computed from that label. A box of 1230 by
  820 pixels at 203 dots per inch gives the label of 6 by 4 inches, and a crop whose
  aspect ratio is above 1 is rotated.
\<close>

theorem label_size_rule:
  assumes "0 < target_dpi"
    and "content_width_in = fl (of_int (x1 - x0) / of_nat target_dpi)"
    and "content_height_in = fl (of_int (y1 - y0) / of_nat target_dpi)"
    and "larger = max content_width_in content_height_in"
    and "smaller = min content_width_in content_height_in"
    and "label = (if 5 < larger then (6, 4)
                  else if 3 < larger then (4, 2)
                  else (fl (larger + fl (2 / 10)), fl (smaller + fl (2 / 10))))"
  shows "true_div (x1 - x0) (int target_dpi) = Inr content_width_in
    \<and> true_div (y1 - y0) (int target_dpi) = Inr content_height_in
    \<and> label_size content_width_in content_height_in = label
    \<and> crop_and_rotate img target_dpi (x0, y0, x1, y1)
        = (case pil_crop img (crop_region (pil_width img) (pil_height img) target_dpi
                               (x0, y0, x1, y1) label) of
             Inl e \<Rightarrow> Inl e
           | Inr cropped \<Rightarrow>
               (case true_div (int (pil_width cropped)) (int (pil_height cropped)) of
                  Inl e \<Rightarrow> Inl e
                | Inr aspect_ratio \<Rightarrow>
                    Inr (if needs_rotation aspect_ratio
                              (spans_page_height (pil_height img) (x0, y0, x1, y1))
                         then pil_rotate90 cropped else cropped)))
    \<and> (x1 - x0 = 1230 \<and> y1 - y0 = 820 \<and> target_dpi = 203 \<longrightarrow> label = (6, 4))
    \<and> (\<forall>aspect_ratio spans. 1 < aspect_ratio \<longrightarrow> needs_rotation aspect_ratio spans)"
proof -
  have w: "true_div (x1 - x0) (int target_dpi) = Inr content_width_in"
    and h: "true_div (y1 - y0) (int target_dpi) = Inr content_height_in"
    using assms(1-3) by (simp_all add: true_div_def)
  have size: "label_size content_width_in content_height_in = label"
    by (simp add: label_size_def Let_def assms(4-6))
  have crop: "crop_and_rotate img target_dpi (x0, y0, x1, y1)
        = (case pil_crop img (crop_region (pil_width img) (pil_height img) target_dpi
                               (x0, y0, x1, y1) label) of
             Inl e \<Rightarrow> Inl e
           | Inr cropped \<Rightarrow>
               (case true_div (int (pil_width cropped)) (int (pil_height cropped)) of
                  Inl e \<Rightarrow> Inl e
                | Inr aspect_ratio \<Rightarrow>
                    Inr (if needs_rotation aspect_ratio
                              (spans_page_height (pil_height img) (x0, y0, x1, y1))
                         then pil_rotate90 cropped else cropped)))"
    by (simp add: crop_and_rotate_def w h size split: sum.splits)
  have scenario: "label = (6, 4)" if "x1 - x0 = 1230 \<and> y1 - y0 = 820 \<and> target_dpi = 203"
  proof -
    from that have "content_width_in = fl (1230 / 203)" by (simp add: assms(2))
    with scenario_inches have "5 < larger" by (simp add: assms(4) max_def)
    then show ?thesis by (simp add: assms(6))
  qed
  have "\<forall>aspect_ratio spans. 1 < aspect_ratio \<longrightarrow> needs_rotation aspect_ratio spans"
    by (simp add: needs_rotation_def)
  with w h size crop scenario show ?thesis by blast
qed

theorem label_size_rule_witness:
  "label_size (6821955100573535 / 1125899906842624) (4547970067049023 / 1125899906842624) = (6, 4)
   \<and> label_size 2 1 = (2476979795053773 / 1125899906842624, 5404319552844595 / 4503599627370496)
   \<and> needs_rotation (3 / 2) False"
proof -
  have big: "label_size (fl (of_int (1430 - 200) / of_nat 203)) (fl (of_int (1120 - 300) / of_nat 203))
      = (6, 4)"
    using label_size_rule [of 203 _ 1430 200 _ 1120 300, OF _ refl refl refl refl refl]
    by simp
  have small: "label_size (fl (of_int (20 - 10) / of_nat 5)) (fl (of_int (15 - 10) / of_nat 5))
      = (if 5 < max (fl (of_int (20 - 10) / of_nat 5)) (fl (of_int (15 - 10) / of_nat 5)) then (6, 4)
         else if 3 < max (fl (of_int (20 - 10) / of_nat 5)) (fl (of_int (15 - 10) / of_nat 5)) then (4, 2)
         else (fl (max (fl (of_int (20 - 10) / of_nat 5)) (fl (of_int (15 - 10) / of_nat 5)) + fl (2 / 10)),
               fl (min (fl (of_int (20 - 10) / of_nat 5)) (fl (of_int (15 - 10) / of_nat 5)) + fl (2 / 10))))"
    using label_size_rule [of 5 _ 20 10 _ 15 10, OF _ refl refl refl refl refl]
    by simp
  have turn: "needs_rotation (3 / 2) False"
    using label_size_rule [of 5 _ 20 10 _ 15 10, OF _ refl refl refl refl refl]
    by simp
  from big have "label_size (6821955100573535 / 1125899906842624)
      (4547970067049023 / 1125899906842624) = (6, 4)"
    unfolding label_examples .
  moreover from small have "label_size 2 1
      = (2476979795053773 / 1125899906842624, 5404319552844595 / 4503599627370496)"
    unfolding label_examples by (simp add: label_examples)
  ultimately show ?thesis using turn by blast
qed

end
